theory Spec2Isabelle
  imports Main
begin

section \<open>Data model of the side-by-side diff viewer\<close>

text \<open>
  The diff viewer lives in \<^verbatim>\<open>app/src/ui/diff/side-by-side-diff.tsx\<close>. Its model classes
  are imported from \<^verbatim>\<open>models/diff\<close>, \<^verbatim>\<open>models/status\<close> and \<^verbatim>\<open>./diff-helpers\<close>.
  JavaScript numbers that hold line numbers and indices are integers here (\<^typ>\<open>int\<close>).
  Names that are Isabelle keywords carry a prime (\<open>from'\<close>, \<open>text'\<close>, \<open>file'\<close>).
\<close>

text \<open>
  The four line kinds of a unified diff. \<open>Unrecognized\<close> stands for any run-time tag
  outside the enumeration: the value that reaches \<^verbatim>\<open>assertNever\<close> at the end of the loop
  body of \<^verbatim>\<open>getDiffRowsFromHunk\<close>.
\<close>

datatype DiffLineType = Context | Add | Delete | Hunk | Unrecognized

record DiffLine =
  content :: string
  type :: DiffLineType
  oldLineNumber :: "int option"
  newLineNumber :: "int option"
  noTrailingNewLine :: bool

record DiffHunk =
  lines :: "DiffLine list"
  unifiedDiffStart :: int

record ITextDiff =
  text' :: string
  hunks :: "DiffHunk list"

text \<open>The transient selection of a drag gesture (\<^verbatim>\<open>ISelection\<close>).\<close>

record ISelection =
  from' :: int
  to :: int
  isSelected :: bool

text \<open>
  Modelled from the spec: the class \<^verbatim>\<open>DiffSelection\<close> of \<^verbatim>\<open>models/diff\<close> is not among
  the sources. The spec describes the persisted selection as an immutable set of selected
  diff-relative line indices, changed only by selecting or deselecting a contiguous range.
\<close>

datatype DiffSelection = DiffSelection "int set"

text \<open>
  Modelled from the spec: \<^verbatim>\<open>DiffSelection.isSelected\<close> is not among the sources. A line
  is selected when its index belongs to the set.
\<close>

fun DiffSelection_isSelected :: "DiffSelection \<Rightarrow> int \<Rightarrow> bool" where
  "DiffSelection_isSelected (DiffSelection S) lineIndex \<longleftrightarrow> lineIndex \<in> S"

text \<open>
  Modelled from the spec: \<^verbatim>\<open>DiffSelection.withRangeSelection\<close> is not among the sources.
  It takes the first line of the range, the number of lines and whether to select, and
  returns a new selection with that contiguous range selected or deselected.
\<close>

fun DiffSelection_withRangeSelection :: "DiffSelection \<Rightarrow> int \<Rightarrow> int \<Rightarrow> bool \<Rightarrow> DiffSelection" where
  "DiffSelection_withRangeSelection (DiffSelection S) start len selected =
     (if selected then DiffSelection (S \<union> {start ..< start + len})
      else DiffSelection (S - {start ..< start + len}))"

text \<open>
  A displayed file is a working-directory change, which owns a persisted selection, or a
  committed change, which has none (\<^verbatim>\<open>ChangedFile\<close>). The first field is the file id.
\<close>

datatype ChangedFile =
  WorkingDirectoryFileChange string DiffSelection
| CommittedFileChange string

fun file_id :: "ChangedFile \<Rightarrow> string" where
  "file_id (WorkingDirectoryFileChange i _) = i"
| "file_id (CommittedFileChange i) = i"

text \<open>
  Modelled from the spec: \<^verbatim>\<open>canSelect\<close> of \<^verbatim>\<open>./diff-helpers\<close> is not among the sources.
  The viewer uses it as a type guard that narrows the file to
  \<^verbatim>\<open>WorkingDirectoryFileChange\<close> before reading \<^verbatim>\<open>file.selection\<close>.
\<close>

fun canSelect :: "ChangedFile \<Rightarrow> bool" where
  "canSelect (WorkingDirectoryFileChange _ _) = True"
| "canSelect (CommittedFileChange _) = False"

text \<open>
  Modelled from the spec: \<^verbatim>\<open>isInTemporarySelection\<close> of \<^verbatim>\<open>./diff-helpers\<close> is not among
  the sources. A line is inside the transient range when it lies between the smaller and
  the larger of anchor and current line, both included.
\<close>

definition isInTemporarySelection :: "ISelection \<Rightarrow> int \<Rightarrow> bool" where
  "isInTemporarySelection s ix \<longleftrightarrow> min (from' s) (to s) \<le> ix \<and> ix \<le> max (from' s) (to s)"

subsection \<open>The displayed selected state of a line\<close>

text \<open>\<^verbatim>\<open>isInSelection\<close>, lines 584 to 609.\<close>

definition isInSelection :: "int \<Rightarrow> ChangedFile \<Rightarrow> ISelection option \<Rightarrow> bool" where
  "isInSelection diffLineNumber file temporarySelection =
     (case file of
        CommittedFileChange _ \<Rightarrow> False
      | WorkingDirectoryFileChange _ selection \<Rightarrow>
          (let isInStoredSelection = DiffSelection_isSelected selection diffLineNumber in
           case temporarySelection of
             None \<Rightarrow> isInStoredSelection
           | Some t \<Rightarrow>
               (let isInTemporary = isInTemporarySelection t diffLineNumber in
                if isSelected t then isInStoredSelection \<or> isInTemporary
                else isInStoredSelection \<and> \<not> isInTemporary)))"

section \<open>The diff row builder\<close>

text \<open>
  The data of one displayed line (\<^verbatim>\<open>IDiffRowData\<close>); its fields carry the prefix
  \<open>data_\<close> to keep them apart from the fields of a diff line and of a transient selection.
\<close>

record IDiffRowData =
  data_content :: string
  data_lineNumber :: int
  data_diffLineNumber :: int
  data_isSelected :: bool
  data_noNewLineIndicator :: bool

text \<open>
  The five row variants (\<^verbatim>\<open>DiffRow\<close>, tagged by \<^verbatim>\<open>DiffRowType\<close>):
  a hunk header with its content; a context row with content, before and after line number;
  an added and a deleted row with their data and \<^verbatim>\<open>hunkStartLine\<close>; a modified row with
  \<^verbatim>\<open>beforeData\<close>, \<^verbatim>\<open>afterData\<close>, \<^verbatim>\<open>hunkStartLine\<close> and \<^verbatim>\<open>displayDiffTokens\<close>.
\<close>

datatype DiffRow =
  Row_Hunk string
| Row_Context string int int
| Row_Added IDiffRowData int
| Row_Deleted IDiffRowData int
| Row_Modified IDiffRowData IDiffRowData int bool

text \<open>The second argument of \<^verbatim>\<open>getDataFromLine\<close>: which line number of the diff line to show.\<close>

datatype LineToUse = OldLineNumber | NewLineNumber

text \<open>
  The fatal errors the builder can raise: a required line number is missing
  (\<^verbatim>\<open>Expecting oldLineNumber value for ...\<close>), or the line type is none of the four known
  (\<^verbatim>\<open>Invalid line type: ...\<close>).
\<close>

datatype FatalError = ExpectingValue LineToUse | InvalidLineType

text \<open>
  Modelled from the spec: \<^verbatim>\<open>forceUnwrap\<close> of \<^verbatim>\<open>lib/fatal-error\<close> is not among the
  sources. A missing value is a fatal error with the given message, a present one is
  handed on.
\<close>

definition forceUnwrap :: "FatalError \<Rightarrow> 'a option \<Rightarrow> FatalError + 'a" where
  "forceUnwrap message x = (case x of None \<Rightarrow> Inl message | Some v \<Rightarrow> Inr v)"

text \<open>
  Modelled from the spec: \<^verbatim>\<open>assertNonNullable\<close> of \<^verbatim>\<open>lib/fatal-error\<close> is not among
  the sources. The absence of a required line number is a fatal error; past the assertion
  the value is known to be present.
\<close>

definition assertNonNullable :: "'a option \<Rightarrow> FatalError \<Rightarrow> FatalError + 'a" where
  "assertNonNullable x message = (case x of None \<Rightarrow> Inl message | Some v \<Rightarrow> Inr v)"

text \<open>A diff line together with its index in the unified diff, as the builder collects them.\<close>

type_synonym NumberedLine = "DiffLine \<times> int"

text \<open>\<^verbatim>\<open>getDataFromLine\<close>, lines 566 to 582.\<close>

definition getDataFromLine ::
  "NumberedLine \<Rightarrow> LineToUse \<Rightarrow> ChangedFile \<Rightarrow> ISelection option \<Rightarrow> FatalError + IDiffRowData" where
  "getDataFromLine numbered lineToUse file temporarySelection =
     (case numbered of (line, num) \<Rightarrow>
        (case forceUnwrap (ExpectingValue lineToUse)
                (case lineToUse of OldLineNumber \<Rightarrow> oldLineNumber line
                                 | NewLineNumber \<Rightarrow> newLineNumber line) of
           Inl e \<Rightarrow> Inl e
         | Inr n \<Rightarrow>
             Inr \<lparr>data_content = content line,
                  data_lineNumber = n,
                  data_diffLineNumber = num,
                  data_isSelected = isInSelection num file temporarySelection,
                  data_noNewLineIndicator = noTrailingNewLine line\<rparr>))"

text \<open>
  The \<^verbatim>\<open>for\<close> loop of \<^verbatim>\<open>getModifiedRows\<close>, lines 512 to 561, with the loop counter
  \<open>numLine\<close> and the rows pushed so far as arguments. A fatal error in
  \<^verbatim>\<open>getDataFromLine\<close> ends the loop; in a modified row the before data is built first.
\<close>

function getModifiedRows_loop ::
  "NumberedLine list \<Rightarrow> NumberedLine list \<Rightarrow> ChangedFile \<Rightarrow> ISelection option \<Rightarrow> int \<Rightarrow> bool
     \<Rightarrow> nat \<Rightarrow> DiffRow list \<Rightarrow> FatalError + DiffRow list" where
  "getModifiedRows_loop addedLines deletedLines file temporarySelection hunkStartLine
       shouldDisplayDiffInChunk numLine output =
     (if numLine < length addedLines \<or> numLine < length deletedLines then
        (if numLine < length addedLines \<and> numLine < length deletedLines then
           (case getDataFromLine (deletedLines ! numLine) OldLineNumber file temporarySelection of
              Inl e \<Rightarrow> Inl e
            | Inr beforeData \<Rightarrow>
                (case getDataFromLine (addedLines ! numLine) NewLineNumber file temporarySelection of
                   Inl e \<Rightarrow> Inl e
                 | Inr afterData \<Rightarrow>
                     getModifiedRows_loop addedLines deletedLines file temporarySelection
                       hunkStartLine shouldDisplayDiffInChunk (Suc numLine)
                       (output @ [Row_Modified beforeData afterData hunkStartLine
                                    shouldDisplayDiffInChunk])))
         else if numLine < length deletedLines then
           (case getDataFromLine (deletedLines ! numLine) OldLineNumber file temporarySelection of
              Inl e \<Rightarrow> Inl e
            | Inr d \<Rightarrow>
                getModifiedRows_loop addedLines deletedLines file temporarySelection
                  hunkStartLine shouldDisplayDiffInChunk (Suc numLine)
                  (output @ [Row_Deleted d hunkStartLine]))
         else if numLine < length addedLines then
           (case getDataFromLine (addedLines ! numLine) NewLineNumber file temporarySelection of
              Inl e \<Rightarrow> Inl e
            | Inr d \<Rightarrow>
                getModifiedRows_loop addedLines deletedLines file temporarySelection
                  hunkStartLine shouldDisplayDiffInChunk (Suc numLine)
                  (output @ [Row_Added d hunkStartLine]))
         else
           getModifiedRows_loop addedLines deletedLines file temporarySelection
             hunkStartLine shouldDisplayDiffInChunk (Suc numLine) output)
      else Inr output)"
  by pat_completeness auto
termination
  by (relation "measure (\<lambda>(addedLines, deletedLines, file, temporarySelection, hunkStartLine,
                            shouldDisplayDiffInChunk, numLine, output).
                   max (length addedLines) (length deletedLines) - numLine)") auto

declare getModifiedRows_loop.simps [simp del]

text \<open>\<^verbatim>\<open>getModifiedRows\<close>, lines 490 to 564.\<close>

definition getModifiedRows ::
  "NumberedLine list \<Rightarrow> ChangedFile \<Rightarrow> ISelection option \<Rightarrow> FatalError + DiffRow list" where
  "getModifiedRows addedDeletedLines file temporarySelection =
     (case addedDeletedLines of
        [] \<Rightarrow> Inr []
      | first # _ \<Rightarrow>
          (let hunkStartLine = snd first;
               addedLines = filter (\<lambda>(line, _). type line = Add) addedDeletedLines;
               deletedLines = filter (\<lambda>(line, _). type line = Delete) addedDeletedLines;
               shouldDisplayDiffInChunk = (length addedLines = length deletedLines)
           in getModifiedRows_loop addedLines deletedLines file temporarySelection
                hunkStartLine shouldDisplayDiffInChunk 0 []))"

text \<open>
  The flush of the collected run, lines 447 to 451 and 483 to 485: when lines were collected,
  their rows are pushed; inside the loop the collection is emptied afterwards.
\<close>

definition flushModifiedLines ::
  "DiffRow list \<Rightarrow> NumberedLine list \<Rightarrow> ChangedFile \<Rightarrow> ISelection option
     \<Rightarrow> FatalError + DiffRow list" where
  "flushModifiedLines rows modifiedLines file temporarySelection =
     (if length modifiedLines > 0 then
        (case getModifiedRows modifiedLines file temporarySelection of
           Inl e \<Rightarrow> Inl e
         | Inr modifiedRows \<Rightarrow> Inr (rows @ modifiedRows))
      else Inr rows)"

text \<open>
  The \<^verbatim>\<open>for\<close> loop of \<^verbatim>\<open>getDiffRowsFromHunk\<close>, lines 438 to 481, over the lines still to
  visit, with the index \<open>num\<close> of the next line, the rows pushed so far and the collected run.
  It returns the rows and the run still open when the lines are used up.
\<close>

fun getDiffRowsFromHunk_loop ::
  "int \<Rightarrow> ChangedFile \<Rightarrow> ISelection option \<Rightarrow> int \<Rightarrow> DiffLine list \<Rightarrow> DiffRow list
     \<Rightarrow> NumberedLine list \<Rightarrow> FatalError + (DiffRow list \<times> NumberedLine list)" where
  "getDiffRowsFromHunk_loop start file temporarySelection num [] rows modifiedLines =
     Inr (rows, modifiedLines)"
| "getDiffRowsFromHunk_loop start file temporarySelection num (line # rest) rows modifiedLines =
     (if type line = Delete \<or> type line = Add then
        getDiffRowsFromHunk_loop start file temporarySelection (num + 1) rest rows
          (modifiedLines @ [(line, start + num)])
      else
        (case flushModifiedLines rows modifiedLines file temporarySelection of
           Inl e \<Rightarrow> Inl e
         | Inr rows1 \<Rightarrow>
             if type line = Hunk then
               getDiffRowsFromHunk_loop start file temporarySelection (num + 1) rest
                 (rows1 @ [Row_Hunk (content line)]) []
             else if type line = Context then
               (case assertNonNullable (oldLineNumber line) (ExpectingValue OldLineNumber) of
                  Inl e \<Rightarrow> Inl e
                | Inr beforeLineNumber \<Rightarrow>
                    (case assertNonNullable (newLineNumber line) (ExpectingValue NewLineNumber) of
                       Inl e \<Rightarrow> Inl e
                     | Inr afterLineNumber \<Rightarrow>
                         getDiffRowsFromHunk_loop start file temporarySelection (num + 1) rest
                           (rows1 @ [Row_Context (content line) beforeLineNumber afterLineNumber])
                           []))
             else Inl InvalidLineType))"

text \<open>\<^verbatim>\<open>getDiffRowsFromHunk\<close>, lines 427 to 488.\<close>

definition getDiffRowsFromHunk ::
  "DiffHunk \<Rightarrow> ChangedFile \<Rightarrow> ISelection option \<Rightarrow> FatalError + DiffRow list" where
  "getDiffRowsFromHunk hunk file temporarySelection =
     (case getDiffRowsFromHunk_loop (unifiedDiffStart hunk) file temporarySelection 0
             (lines hunk) [] [] of
        Inl e \<Rightarrow> Inl e
      | Inr (rows, modifiedLines) \<Rightarrow>
          flushModifiedLines rows modifiedLines file temporarySelection)"

text \<open>
  \<^verbatim>\<open>getDiffRows\<close>, lines 413 to 425: the rows of all hunks in order. The source memoizes
  the function on its last arguments, which does not change what it returns.
\<close>

fun getDiffRows_loop ::
  "DiffHunk list \<Rightarrow> ChangedFile \<Rightarrow> ISelection option \<Rightarrow> DiffRow list \<Rightarrow> FatalError + DiffRow list" where
  "getDiffRows_loop [] file temporarySelection rows = Inr rows"
| "getDiffRows_loop (hunk # rest) file temporarySelection rows =
     (case getDiffRowsFromHunk hunk file temporarySelection of
        Inl e \<Rightarrow> Inl e
      | Inr hunkRows \<Rightarrow> getDiffRows_loop rest file temporarySelection (rows @ hunkRows))"

definition getDiffRows ::
  "ITextDiff \<Rightarrow> ChangedFile \<Rightarrow> ISelection option \<Rightarrow> FatalError + DiffRow list" where
  "getDiffRows diff file temporarySelection =
     getDiffRows_loop (hunks diff) file temporarySelection []"

section \<open>The component: props, state and event handlers\<close>

text \<open>
  The props of \<^verbatim>\<open>SideBySideDiff\<close> that the handlers read. The callback
  \<^verbatim>\<open>onIncludeChanged\<close> is optional; when registered it acts on the world outside the
  component (type \<open>'w\<close>: the store that owns the persisted selection), which the handlers
  thread through.
\<close>

record 'w ISideBySideDiffProps =
  file' :: ChangedFile
  diff :: ITextDiff
  onIncludeChanged :: "(DiffSelection \<Rightarrow> 'w \<Rightarrow> 'w) option"

datatype DiffColumn = Before | After

text \<open>
  The component state; an absent optional field is \<open>None\<close>. The token tables
  (\<^verbatim>\<open>ITokens\<close> of \<^verbatim>\<open>lib/highlighter/types\<close>) are a type parameter.
\<close>

record 'tok ISideBySideDiffState =
  beforeTokens :: "'tok option"
  afterTokens :: "'tok option"
  selectingRow :: "DiffColumn option"
  selection :: "ISelection option"
  hoveredHunk :: "int option"

text \<open>
  \<^verbatim>\<open>onStartSelection\<close>, lines 247 to 257. The handler also registers
  \<^verbatim>\<open>onEndSelection\<close> as a one-shot listener for the next \<^verbatim>\<open>mouseup\<close> on the document.
\<close>

definition onStartSelection ::
  "int \<Rightarrow> bool \<Rightarrow> 'tok ISideBySideDiffState \<Rightarrow> 'tok ISideBySideDiffState" where
  "onStartSelection lineNumber select state =
     state\<lparr>selection := Some \<lparr>from' = lineNumber, to = lineNumber, isSelected = select\<rparr>\<rparr>"

text \<open>\<^verbatim>\<open>onEndSelection\<close>, lines 259 to 286: the new state and the new outside world.\<close>

definition onEndSelection ::
  "'w ISideBySideDiffProps \<Rightarrow> 'tok ISideBySideDiffState \<Rightarrow> 'w
     \<Rightarrow> 'tok ISideBySideDiffState \<times> 'w" where
  "onEndSelection props state world =
     (case file' props of
        CommittedFileChange _ \<Rightarrow> (state, world)
      | WorkingDirectoryFileChange _ fileSelection \<Rightarrow>
          (case selection state of
             None \<Rightarrow> (state, world)
           | Some s \<Rightarrow>
               (case onIncludeChanged props of
                  None \<Rightarrow> (state, world)
                | Some handler \<Rightarrow>
                    (let from = min (from' s) (to s);
                         to = max (from' s) (ISelection.to s)
                     in (state\<lparr>selection := None\<rparr>,
                         handler (DiffSelection_withRangeSelection fileSelection
                                    from (to - from + 1) (isSelected s)) world)))))"

text \<open>\<^verbatim>\<open>onUpdateSelection\<close>, lines 288 to 299.\<close>

definition onUpdateSelection ::
  "int \<Rightarrow> 'tok ISideBySideDiffState \<Rightarrow> 'tok ISideBySideDiffState" where
  "onUpdateSelection lineNumber state =
     (case selection state of
        None \<Rightarrow> state
      | Some s \<Rightarrow> state\<lparr>selection := Some (s\<lparr>to := lineNumber\<rparr>)\<rparr>)"

text \<open>\<^verbatim>\<open>onMouseEnterHunk\<close> and \<^verbatim>\<open>onMouseLeaveHunk\<close>, lines 301 to 311.\<close>

definition onMouseEnterHunk ::
  "int \<Rightarrow> 'tok ISideBySideDiffState \<Rightarrow> 'tok ISideBySideDiffState" where
  "onMouseEnterHunk hunkStartLine state =
     (if selection state \<noteq> None then state
      else state\<lparr>hoveredHunk := Some hunkStartLine\<rparr>)"

definition onMouseLeaveHunk :: "'tok ISideBySideDiffState \<Rightarrow> 'tok ISideBySideDiffState" where
  "onMouseLeaveHunk state = state\<lparr>hoveredHunk := None\<rparr>"

text \<open>
  The events a row delivers to the component between pointer-down and pointer-up, and their
  dispatch to the handlers above.
\<close>

datatype RowEvent =
  StartSelection int bool
| UpdateSelection int
| MouseEnterHunk int
| MouseLeaveHunk

fun dispatchRowEvent :: "'tok ISideBySideDiffState \<Rightarrow> RowEvent \<Rightarrow> 'tok ISideBySideDiffState" where
  "dispatchRowEvent state (StartSelection lineNumber select) = onStartSelection lineNumber select state"
| "dispatchRowEvent state (UpdateSelection lineNumber) = onUpdateSelection lineNumber state"
| "dispatchRowEvent state (MouseEnterHunk hunkStartLine) = onMouseEnterHunk hunkStartLine state"
| "dispatchRowEvent state MouseLeaveHunk = onMouseLeaveHunk state"

subsection \<open>Background syntax highlighting\<close>

text \<open>
  \<^verbatim>\<open>highlightParametersEqual\<close>, lines 402 to 411. Identity of the two props objects is
  modelled by their equality; identical objects agree on file id and diff text as well.
\<close>

definition highlightParametersEqual ::
  "'w ISideBySideDiffProps \<Rightarrow> 'w ISideBySideDiffProps \<Rightarrow> bool" where
  "highlightParametersEqual newProps prevProps \<longleftrightarrow>
     newProps = prevProps
     \<or> (file_id (file' newProps) = file_id (file' prevProps)
        \<and> text' (diff newProps) = text' (diff prevProps))"

text \<open>The result of \<^verbatim>\<open>highlightContents\<close>: the token tables of the old and the new file.\<close>

record 'tok IFileTokens =
  oldTokens :: 'tok
  newTokens :: 'tok

text \<open>
  \<^verbatim>\<open>initDiffSyntaxMode\<close>, lines 218 to 245, is an asynchronous function with two
  \<^verbatim>\<open>await\<close>s. A call in flight is one of its suspension points, holding the props
  snapshot taken at the call; each resumption reads the props (and, at the end, the state)
  the component has at that moment.
\<close>

datatype 'w InitDiffSyntaxMode =
  AwaitingFileContents "'w ISideBySideDiffProps"
| AwaitingHighlightContents "'w ISideBySideDiffProps"
| Returned

definition initDiffSyntaxMode :: "'w ISideBySideDiffProps \<Rightarrow> 'w InitDiffSyntaxMode" where
  "initDiffSyntaxMode props = AwaitingFileContents props"

text \<open>
  One resumption: \<open>thisProps\<close> and \<open>state\<close> are the component's props and state when the
  awaited promise resolves, \<open>tokens\<close> is what \<^verbatim>\<open>highlightContents\<close> resolves to (read
  at the second resumption only).
\<close>

fun resumeInitDiffSyntaxMode ::
  "'w InitDiffSyntaxMode \<Rightarrow> 'w ISideBySideDiffProps \<Rightarrow> 'tok IFileTokens
     \<Rightarrow> 'tok ISideBySideDiffState \<Rightarrow> 'w InitDiffSyntaxMode \<times> 'tok ISideBySideDiffState" where
  "resumeInitDiffSyntaxMode (AwaitingFileContents propsSnapshot) thisProps tokens state =
     (if \<not> highlightParametersEqual thisProps propsSnapshot then (Returned, state)
      else (AwaitingHighlightContents propsSnapshot, state))"
| "resumeInitDiffSyntaxMode (AwaitingHighlightContents propsSnapshot) thisProps tokens state =
     (if \<not> highlightParametersEqual thisProps propsSnapshot then (Returned, state)
      else (Returned, state\<lparr>beforeTokens := Some (oldTokens tokens),
                             afterTokens := Some (newTokens tokens)\<rparr>))"
| "resumeInitDiffSyntaxMode Returned thisProps tokens state = (Returned, state)"

text \<open>
  A whole run of one call: issued under \<open>props0\<close>; the file contents arrive when the
  component has props \<open>props1\<close> and state \<open>state1\<close>; the tokens, if still asked for,
  arrive when it has \<open>props2\<close> and \<open>state2\<close>. The result is the state the component has
  after the call is over.
\<close>

definition runInitDiffSyntaxMode ::
  "'w ISideBySideDiffProps \<Rightarrow> 'w ISideBySideDiffProps \<Rightarrow> 'tok ISideBySideDiffState
     \<Rightarrow> 'w ISideBySideDiffProps \<Rightarrow> 'tok ISideBySideDiffState \<Rightarrow> 'tok IFileTokens
     \<Rightarrow> 'tok ISideBySideDiffState" where
  "runInitDiffSyntaxMode props0 props1 state1 props2 state2 tokens =
     (case resumeInitDiffSyntaxMode (initDiffSyntaxMode props0) props1 tokens state1 of
        (AwaitingHighlightContents snapshot, _) \<Rightarrow>
          snd (resumeInitDiffSyntaxMode (AwaitingHighlightContents snapshot) props2 tokens state2)
      | (_, _) \<Rightarrow> state2)"

section \<open>The clone dialog\<close>

text \<open>A JavaScript \<^verbatim>\<open>Error\<close> with the two properties the dialog reads.\<close>

record Error =
  name :: string
  message :: string

record IRepositoryIdentifier =
  owner :: string
  name' :: string

record ICloneRepositoryState =
  url :: string
  path :: string
  loading :: bool
  error :: "Error option"
  lastParsedIdentifier :: "IRepositoryIdentifier option"

definition DestinationExistsErrorName :: string where
  "DestinationExistsErrorName = ''DestinationExistsError''"

text \<open>
  The completion callback of \<^verbatim>\<open>checkPathValid\<close>, lines 121 to 134: \<open>newPath\<close> is the path
  the check was issued for, \<open>exists\<close> its outcome and \<open>state\<close> the dialog state when the
  check completes.
\<close>

definition checkPathValid :: "string \<Rightarrow> bool \<Rightarrow> ICloneRepositoryState \<Rightarrow> ICloneRepositoryState" where
  "checkPathValid newPath exists state =
     (if path state \<noteq> newPath then state
      else
        (let error =
               (if exists then
                  Some \<lparr>name = DestinationExistsErrorName,
                        message = ''The destination already exists.''\<rparr>
                else None)
         in state\<lparr>error := error\<rparr>))"

text \<open>The \<^verbatim>\<open>disabled\<close> flag of the Clone button, computed in \<^verbatim>\<open>render\<close>, lines 61 to 67.\<close>

definition disabled :: "ICloneRepositoryState \<Rightarrow> bool" where
  "disabled state \<longleftrightarrow>
     length (url state) = 0 \<or> length (path state) = 0 \<or> loading state
     \<or> (case error state of None \<Rightarrow> False | Some e \<Rightarrow> name e = DestinationExistsErrorName)"

section \<open>Vocabulary of the properties\<close>

text \<open>The three data-bearing row variants, and the input lines they stand for.\<close>

fun isAddedRow :: "DiffRow \<Rightarrow> bool" where
  "isAddedRow (Row_Added _ _) = True"
| "isAddedRow _ = False"

fun isDeletedRow :: "DiffRow \<Rightarrow> bool" where
  "isDeletedRow (Row_Deleted _ _) = True"
| "isDeletedRow _ = False"

fun isModifiedRow :: "DiffRow \<Rightarrow> bool" where
  "isModifiedRow (Row_Modified _ _ _ _) = True"
| "isModifiedRow _ = False"

definition isChangeLine :: "DiffLine \<Rightarrow> bool" where
  "isChangeLine line \<longleftrightarrow> type line = Add \<or> type line = Delete"

text \<open>All lines of a diff, hunk after hunk.\<close>

definition diffLines :: "ITextDiff \<Rightarrow> DiffLine list" where
  "diffLines textDiff = concat (map lines (hunks textDiff))"

text \<open>
  A well-formed diff line carries the line numbers its kind has: a context line both, an
  added line the new one, a deleted line the old one; its type is one of the four known.
\<close>

definition wellFormedLine :: "DiffLine \<Rightarrow> bool" where
  "wellFormedLine line =
     (case type line of
        Context \<Rightarrow> oldLineNumber line \<noteq> None \<and> newLineNumber line \<noteq> None
      | Add \<Rightarrow> newLineNumber line \<noteq> None
      | Delete \<Rightarrow> oldLineNumber line \<noteq> None
      | Hunk \<Rightarrow> True
      | Unrecognized \<Rightarrow> False)"

text \<open>
  The number of input change lines a row shows: one for an added or a deleted row, two for a
  modified row, which pairs a deleted with an added line.
\<close>

fun shownChangeLines :: "DiffRow \<Rightarrow> nat" where
  "shownChangeLines (Row_Added _ _) = 1"
| "shownChangeLines (Row_Deleted _ _) = 1"
| "shownChangeLines (Row_Modified _ _ _ _) = 2"
| "shownChangeLines _ = 0"

definition shownTotal :: "DiffRow list \<Rightarrow> nat" where
  "shownTotal rows = sum_list (map shownChangeLines rows)"

text \<open>The collected run holds change lines only; every collected line is well formed.\<close>

definition changeRun :: "NumberedLine list \<Rightarrow> bool" where
  "changeRun ms \<longleftrightarrow> list_all (\<lambda>m. isChangeLine (fst m)) ms"

definition numbersPresent :: "NumberedLine list \<Rightarrow> bool" where
  "numbersPresent ms \<longleftrightarrow> list_all (\<lambda>m. wellFormedLine (fst m)) ms"

text \<open>
  Context rows, and the context row a context line with both numbers stands for.
\<close>

fun isContextRow :: "DiffRow \<Rightarrow> bool" where
  "isContextRow (Row_Context _ _ _) = True"
| "isContextRow _ = False"

definition contextRowOf :: "DiffLine \<Rightarrow> DiffRow option" where
  "contextRowOf line =
     (case oldLineNumber line of
        None \<Rightarrow> None
      | Some b \<Rightarrow>
          (case newLineNumber line of
             None \<Rightarrow> None
           | Some a \<Rightarrow> Some (Row_Context (content line) b a)))"

text \<open>The intra-line highlight flag of a modified row; other rows have none.\<close>

fun displayDiffTokens :: "DiffRow \<Rightarrow> bool option" where
  "displayDiffTokens (Row_Modified _ _ _ flag) = Some flag"
| "displayDiffTokens _ = None"

text \<open>
  The lines of a run with their indices in the unified diff, as the loop of
  \<^verbatim>\<open>getDiffRowsFromHunk\<close> collects them from index \<open>n\<close> on.
\<close>

fun numberedFrom :: "int \<Rightarrow> DiffLine list \<Rightarrow> NumberedLine list" where
  "numberedFrom n [] = []"
| "numberedFrom n (line # rest) = (line, n) # numberedFrom (n + 1) rest"

text \<open>
  Two props objects agree on the inputs of syntax highlighting: the id of the displayed
  file and the text of the diff.
\<close>

definition sameHighlightInputs ::
  "'w ISideBySideDiffProps \<Rightarrow> 'w ISideBySideDiffProps \<Rightarrow> bool" where
  "sameHighlightInputs p q \<longleftrightarrow>
     file_id (file' p) = file_id (file' q) \<and> text' (diff p) = text' (diff q)"

section \<open>Example data\<close>

text \<open>A small diff of a working-directory file whose diff line 2 is selected.\<close>

definition headerLine :: DiffLine where
  "headerLine = \<lparr>content = ''@@ -1,3 +1,4 @@'', type = Hunk, oldLineNumber = None,
                  newLineNumber = None, noTrailingNewLine = False\<rparr>"

definition contextLine :: "string \<Rightarrow> int \<Rightarrow> int \<Rightarrow> DiffLine" where
  "contextLine c b a = \<lparr>content = c, type = Context, oldLineNumber = Some b,
                  newLineNumber = Some a, noTrailingNewLine = False\<rparr>"

definition deletedLine :: "string \<Rightarrow> int \<Rightarrow> DiffLine" where
  "deletedLine c b = \<lparr>content = c, type = Delete, oldLineNumber = Some b,
                  newLineNumber = None, noTrailingNewLine = False\<rparr>"

definition addedLine :: "string \<Rightarrow> int \<Rightarrow> DiffLine" where
  "addedLine c a = \<lparr>content = c, type = Add, oldLineNumber = None,
                  newLineNumber = Some a, noTrailingNewLine = False\<rparr>"

definition exampleHunk :: DiffHunk where
  "exampleHunk =
     \<lparr>lines = [headerLine, contextLine ''a'' 1 1, deletedLine ''b'' 2, addedLine ''B'' 2,
                addedLine ''c'' 3, contextLine ''d'' 3 4],
      unifiedDiffStart = 0\<rparr>"

definition exampleFile :: ChangedFile where
  "exampleFile = WorkingDirectoryFileChange ''a.txt'' (DiffSelection {2})"

lemmas example_defs = headerLine_def contextLine_def deletedLine_def addedLine_def
  exampleHunk_def exampleFile_def

text \<open>A diff of two hunks; the second one deletes a line.\<close>

definition exampleDiff :: ITextDiff where
  "exampleDiff =
     \<lparr>text' = ''example'',
      hunks = [exampleHunk,
               \<lparr>lines = [headerLine, deletedLine ''x'' 10], unifiedDiffStart = 6\<rparr>]\<rparr>"

text \<open>A hunk whose only run pairs one deleted with one added line.\<close>

definition pairedHunk :: DiffHunk where
  "pairedHunk =
     \<lparr>lines = [headerLine, contextLine ''a'' 1 1, deletedLine ''b'' 2, addedLine ''B'' 2,
                contextLine ''d'' 3 3],
      unifiedDiffStart = 0\<rparr>"

text \<open>A hunk with a context line that lacks its new line number.\<close>

definition brokenHunk :: DiffHunk where
  "brokenHunk =
     \<lparr>lines = [headerLine,
                \<lparr>content = ''a'', type = Context, oldLineNumber = Some 1,
                   newLineNumber = None, noTrailingNewLine = False\<rparr>],
      unifiedDiffStart = 0\<rparr>"

text \<open>
  Component states: idle, in the middle of a select-drag from line 7 to line 3, and idle
  with hunk 3 hovered.
\<close>

definition idleState :: "string ISideBySideDiffState" where
  "idleState = \<lparr>beforeTokens = None, afterTokens = None, selectingRow = None,
                 selection = None, hoveredHunk = None\<rparr>"

definition dragState :: "string ISideBySideDiffState" where
  "dragState = idleState\<lparr>selection := Some \<lparr>from' = 7, to = 3, isSelected = True\<rparr>\<rparr>"

definition hoveringState :: "string ISideBySideDiffState" where
  "hoveringState = idleState\<lparr>hoveredHunk := Some 3\<rparr>"

text \<open>An outside world that logs the selections it receives.\<close>

definition recordSelection :: "DiffSelection \<Rightarrow> DiffSelection list \<Rightarrow> DiffSelection list" where
  "recordSelection s log = log @ [s]"

definition editableProps :: "DiffSelection list ISideBySideDiffProps" where
  "editableProps = \<lparr>file' = exampleFile, diff = exampleDiff,
                     onIncludeChanged = Some recordSelection\<rparr>"

definition readOnlyProps :: "DiffSelection list ISideBySideDiffProps" where
  "readOnlyProps = \<lparr>file' = exampleFile, diff = exampleDiff, onIncludeChanged = None\<rparr>"

text \<open>
  Props that display another file, a token result, and a state of the clone dialog while
  the user types.
\<close>

definition otherFileProps :: "DiffSelection list ISideBySideDiffProps" where
  "otherFileProps = editableProps\<lparr>file' := CommittedFileChange ''b.txt''\<rparr>"

definition exampleTokens :: "string IFileTokens" where
  "exampleTokens = \<lparr>oldTokens = ''old tokens'', newTokens = ''new tokens''\<rparr>"

definition typingState :: ICloneRepositoryState where
  "typingState = \<lparr>url = ''hubot/cool-repo'', path = ''/tmp/cool-repo'', loading = False,
                   error = None, lastParsedIdentifier = None\<rparr>"

section \<open>The row builder: counting the change lines\<close>

lemma shownTotal_simps [simp]:
  "shownTotal [] = 0"
  "shownTotal (rows @ rows') = shownTotal rows + shownTotal rows'"
  "shownTotal [Row_Hunk c] = 0"
  "shownTotal [Row_Context c b a] = 0"
  "shownTotal [Row_Added d h] = 1"
  "shownTotal [Row_Deleted d h] = 1"
  "shownTotal [Row_Modified d d2 h flag] = 2"
  by (simp_all add: shownTotal_def)

lemma shownTotal_counts:
  "shownTotal rows =
     length (filter isAddedRow rows) + length (filter isDeletedRow rows)
       + 2 * length (filter isModifiedRow rows)"
proof (induction rows)
  case Nil then show ?case by simp
next
  case (Cons r rows) then show ?case by (cases r) (simp_all add: shownTotal_def)
qed

lemma getModifiedRows_loop_shown:
  "getModifiedRows_loop a d f t h b n out = Inr rows \<Longrightarrow>
     shownTotal rows = shownTotal out + (length a - n) + (length d - n)"
proof (induction a d f t h b n out rule: getModifiedRows_loop.induct)
  case (1 a d f t h b n out)
  show ?case
  proof (cases "n < length a \<or> n < length d")
    case False
    with "1.prems" show ?thesis by (simp add: getModifiedRows_loop.simps[of a d f t h b n out])
  next
    case True
    from "1.prems" True "1.IH" show ?thesis
      by (subst (asm) getModifiedRows_loop.simps) (auto split: if_splits sum.splits)
  qed
qed

lemma changeRun_split:
  "changeRun ms \<Longrightarrow>
     length (filter (\<lambda>(line, _). type line = Add) ms)
       + length (filter (\<lambda>(line, _). type line = Delete) ms) = length ms"
  by (induction ms) (auto simp: changeRun_def isChangeLine_def)

lemma getModifiedRows_nonempty:
  "ms \<noteq> [] \<Longrightarrow>
     getModifiedRows ms f t =
       getModifiedRows_loop (filter (\<lambda>(line, _). type line = Add) ms)
         (filter (\<lambda>(line, _). type line = Delete) ms) f t (snd (hd ms))
         (length (filter (\<lambda>(line, _). type line = Add) ms)
            = length (filter (\<lambda>(line, _). type line = Delete) ms)) 0 []"
  by (cases ms) (simp_all add: getModifiedRows_def Let_def)

lemma getModifiedRows_shown:
  assumes "getModifiedRows ms f t = Inr rows" and "changeRun ms"
  shows "shownTotal rows = length ms"
proof (cases "ms = []")
  case True
  with assms show ?thesis by (simp add: getModifiedRows_def)
next
  case False
  from assms(1) have "shownTotal rows =
      length (filter (\<lambda>(line, _). type line = Add) ms)
       + length (filter (\<lambda>(line, _). type line = Delete) ms)"
    unfolding getModifiedRows_nonempty[OF False]
    by (auto dest!: getModifiedRows_loop_shown)
  with changeRun_split[OF assms(2)] show ?thesis by simp
qed

lemma flushModifiedLines_shown:
  assumes "flushModifiedLines rows ms f t = Inr rows1" and "changeRun ms"
  shows "shownTotal rows1 = shownTotal rows + length ms"
  using assms
  by (auto simp: flushModifiedLines_def split: if_splits sum.splits dest: getModifiedRows_shown)

lemma getDiffRowsFromHunk_loop_change:
  "isChangeLine l \<Longrightarrow>
     getDiffRowsFromHunk_loop start f t num (l # ls) rows ms =
       getDiffRowsFromHunk_loop start f t (num + 1) ls rows (ms @ [(l, start + num)])"
  by (auto simp: isChangeLine_def)

lemma getDiffRowsFromHunk_loop_other:
  assumes "\<not> isChangeLine l"
    and "getDiffRowsFromHunk_loop start f t num (l # ls) rows ms = Inr res"
  obtains rows1 row where
    "flushModifiedLines rows ms f t = Inr rows1"
    "getDiffRowsFromHunk_loop start f t (num + 1) ls (rows1 @ [row]) [] = Inr res"
    "type l = Hunk \<and> row = Row_Hunk (content l)
     \<or> type l = Context
       \<and> (\<exists>b a. oldLineNumber l = Some b \<and> newLineNumber l = Some a
                 \<and> row = Row_Context (content l) b a)"
proof (cases "flushModifiedLines rows ms f t")
  case (Inl e)
  with assms show ?thesis by (simp add: isChangeLine_def)
next
  case (Inr rows1)
  show ?thesis
  proof (cases "type l")
    case Hunk
    with assms Inr that[of rows1 "Row_Hunk (content l)"] show ?thesis by simp
  next
    case Context
    with assms Inr obtain b a where
      "oldLineNumber l = Some b" "newLineNumber l = Some a"
      by (cases "oldLineNumber l"; cases "newLineNumber l")
         (simp_all add: assertNonNullable_def)
    with Context assms Inr that[of rows1 "Row_Context (content l) b a"] show ?thesis
      by (simp add: assertNonNullable_def)
  qed (use assms Inr in \<open>simp_all add: isChangeLine_def\<close>)
qed

lemma getDiffRowsFromHunk_loop_shown:
  assumes "getDiffRowsFromHunk_loop start f t num ls rows ms = Inr (rows', ms')"
    and "changeRun ms"
  shows "changeRun ms' \<and>
         shownTotal rows' + length ms' = shownTotal rows + length ms + length (filter isChangeLine ls)"
  using assms
proof (induction ls arbitrary: num rows ms)
  case Nil
  then show ?case by simp
next
  case (Cons l ls)
  show ?case
  proof (cases "isChangeLine l")
    case True
    with Cons.prems have
      "getDiffRowsFromHunk_loop start f t (num + 1) ls rows (ms @ [(l, start + num)]) = Inr (rows', ms')"
      by (simp only: getDiffRowsFromHunk_loop_change)
    moreover from True Cons.prems(2) have "changeRun (ms @ [(l, start + num)])"
      by (simp add: changeRun_def)
    ultimately show ?thesis using Cons.IH True by fastforce
  next
    case False
    from getDiffRowsFromHunk_loop_other[OF False Cons.prems(1)] obtain rows1 row where
      fl: "flushModifiedLines rows ms f t = Inr rows1"
      and rest: "getDiffRowsFromHunk_loop start f t (num + 1) ls (rows1 @ [row]) [] = Inr (rows', ms')"
      and rw: "type l = Hunk \<and> row = Row_Hunk (content l)
               \<or> type l = Context
                 \<and> (\<exists>b a. oldLineNumber l = Some b \<and> newLineNumber l = Some a
                     \<and> row = Row_Context (content l) b a)"
      by blast
    from rw have rw0: "shownTotal [row] = 0" by auto
    have "changeRun []" by (simp add: changeRun_def)
    from Cons.IH[OF rest this] flushModifiedLines_shown[OF fl Cons.prems(2)] rw0 False
    show ?thesis by simp
  qed
qed

lemma getDiffRowsFromHunk_shown:
  assumes "getDiffRowsFromHunk hunk f t = Inr rows"
  shows "shownTotal rows = length (filter isChangeLine (lines hunk))"
proof -
  from assms obtain rows1 ms where
    lp: "getDiffRowsFromHunk_loop (unifiedDiffStart hunk) f t 0 (lines hunk) [] [] = Inr (rows1, ms)"
    and fl: "flushModifiedLines rows1 ms f t = Inr rows"
    by (auto simp: getDiffRowsFromHunk_def split: sum.splits)
  have "changeRun []" by (simp add: changeRun_def)
  from getDiffRowsFromHunk_loop_shown[OF lp this] flushModifiedLines_shown[OF fl]
  show ?thesis by simp
qed

lemma getDiffRows_loop_shown:
  "getDiffRows_loop hs f t rows = Inr rows' \<Longrightarrow>
     shownTotal rows' = shownTotal rows + length (filter isChangeLine (concat (map lines hs)))"
proof (induction hs arbitrary: rows)
  case Nil then show ?case by simp
next
  case (Cons h hs)
  then show ?case
    by (auto split: sum.splits dest!: getDiffRowsFromHunk_shown)
qed

section \<open>The row builder: well-formed diffs give rows\<close>

lemma getDataFromLine_old:
  "oldLineNumber (fst m) \<noteq> None \<Longrightarrow> \<exists>d. getDataFromLine m OldLineNumber f t = Inr d"
  by (cases m) (auto simp: getDataFromLine_def forceUnwrap_def)

lemma getDataFromLine_new:
  "newLineNumber (fst m) \<noteq> None \<Longrightarrow> \<exists>d. getDataFromLine m NewLineNumber f t = Inr d"
  by (cases m) (auto simp: getDataFromLine_def forceUnwrap_def)

lemma getModifiedRows_loop_total:
  assumes "list_all (\<lambda>m. newLineNumber (fst m) \<noteq> None) a"
    and "list_all (\<lambda>m. oldLineNumber (fst m) \<noteq> None) d"
  shows "\<exists>rows. getModifiedRows_loop a d f t h b n out = Inr rows"
  using assms
proof (induction a d f t h b n out rule: getModifiedRows_loop.induct)
  case (1 a d f t h b n out)
  have old: "\<exists>x. getDataFromLine (d ! n) OldLineNumber f t = Inr x" if "n < length d"
    using that "1.prems"(2) by (simp add: list_all_length getDataFromLine_old)
  have new: "\<exists>x. getDataFromLine (a ! n) NewLineNumber f t = Inr x" if "n < length a"
    using that "1.prems"(1) by (simp add: list_all_length getDataFromLine_new)
  consider (both) "n < length a" "n < length d"
    | (del) "\<not> n < length a" "n < length d"
    | (add) "n < length a" "\<not> n < length d"
    | (finished) "\<not> n < length a" "\<not> n < length d"
    by blast
  then show ?case
  proof cases
    case both
    from old[OF both(2)] new[OF both(1)] obtain x y where
      xy: "getDataFromLine (d ! n) OldLineNumber f t = Inr x"
          "getDataFromLine (a ! n) NewLineNumber f t = Inr y" by blast
    from "1.IH"(1)[OF _ _ xy "1.prems"] both xy show ?thesis
      by (subst getModifiedRows_loop.simps) simp
  next
    case del
    from old[OF del(2)] obtain x where
      x: "getDataFromLine (d ! n) OldLineNumber f t = Inr x" by blast
    from "1.IH"(2)[OF _ _ _ x "1.prems"] del x show ?thesis
      by (subst getModifiedRows_loop.simps) simp
  next
    case add
    from new[OF add(1)] obtain y where
      y: "getDataFromLine (a ! n) NewLineNumber f t = Inr y" by blast
    from "1.IH"(3)[OF _ _ _ _ y "1.prems"] add y show ?thesis
      by (subst getModifiedRows_loop.simps) simp
  next
    case finished
    then show ?thesis by (subst getModifiedRows_loop.simps) simp
  qed
qed

lemma getModifiedRows_total:
  assumes "numbersPresent ms"
  shows "\<exists>rows. getModifiedRows ms f t = Inr rows"
proof (cases "ms = []")
  case True
  then show ?thesis by (simp add: getModifiedRows_def)
next
  case False
  from assms have "list_all (\<lambda>m. newLineNumber (fst m) \<noteq> None)
                     (filter (\<lambda>(line, _). type line = Add) ms)"
    and "list_all (\<lambda>m. oldLineNumber (fst m) \<noteq> None)
                     (filter (\<lambda>(line, _). type line = Delete) ms)"
    by (auto simp: numbersPresent_def list_all_iff wellFormedLine_def)
  then show ?thesis
    unfolding getModifiedRows_nonempty[OF False] by (rule getModifiedRows_loop_total)
qed

lemma flushModifiedLines_total:
  "numbersPresent ms \<Longrightarrow> \<exists>rows1. flushModifiedLines rows ms f t = Inr rows1"
  using getModifiedRows_total[of ms f t] by (auto simp: flushModifiedLines_def)

lemma getDiffRowsFromHunk_loop_total:
  assumes "list_all wellFormedLine ls" and "numbersPresent ms"
  shows "\<exists>rows' ms'. getDiffRowsFromHunk_loop start f t num ls rows ms = Inr (rows', ms')
            \<and> numbersPresent ms'"
  using assms
proof (induction ls arbitrary: num rows ms)
  case Nil
  then show ?case by simp
next
  case (Cons l ls)
  from Cons.prems(1) have wf: "wellFormedLine l" and wfs: "list_all wellFormedLine ls" by simp_all
  show ?case
  proof (cases "isChangeLine l")
    case True
    from wf Cons.prems(2) have "numbersPresent (ms @ [(l, start + num)])"
      by (simp add: numbersPresent_def)
    from Cons.IH[OF wfs this] show ?thesis
      by (simp only: getDiffRowsFromHunk_loop_change[OF True])
  next
    case False
    from flushModifiedLines_total[OF Cons.prems(2)] obtain rows1 where
      fl: "flushModifiedLines rows ms f t = Inr rows1" by blast
    have e: "numbersPresent []" by (simp add: numbersPresent_def)
    from wf False consider (hunk) "type l = Hunk"
      | (ctx) b a where "type l = Context" "oldLineNumber l = Some b" "newLineNumber l = Some a"
      by (cases "type l") (auto simp: wellFormedLine_def isChangeLine_def)
    then show ?thesis
    proof cases
      case hunk
      with fl Cons.IH[OF wfs e, of "num + 1" "rows1 @ [Row_Hunk (content l)]"] show ?thesis
        by simp
    next
      case ctx
      with fl Cons.IH[OF wfs e, of "num + 1" "rows1 @ [Row_Context (content l) b a]"]
      show ?thesis by (simp add: assertNonNullable_def)
    qed
  qed
qed

lemma getDiffRowsFromHunk_total:
  assumes "list_all wellFormedLine (lines hunk)"
  shows "\<exists>rows. getDiffRowsFromHunk hunk f t = Inr rows"
proof -
  have "numbersPresent []" by (simp add: numbersPresent_def)
  from getDiffRowsFromHunk_loop_total[OF assms this] obtain rows' ms' where
    "getDiffRowsFromHunk_loop (unifiedDiffStart hunk) f t 0 (lines hunk) [] [] = Inr (rows', ms')"
    "numbersPresent ms'" by blast
  with flushModifiedLines_total[of ms' rows' f t] show ?thesis
    by (auto simp: getDiffRowsFromHunk_def)
qed

lemma getDiffRows_loop_total:
  "list_all wellFormedLine (concat (map lines hs)) \<Longrightarrow>
     \<exists>rows'. getDiffRows_loop hs f t rows = Inr rows'"
proof (induction hs arbitrary: rows)
  case Nil then show ?case by simp
next
  case (Cons h hs)
  from Cons.prems have "list_all wellFormedLine (lines h)"
    and r: "list_all wellFormedLine (concat (map lines hs))" by simp_all
  from getDiffRowsFromHunk_total[OF this(1)] obtain hr where
    "getDiffRowsFromHunk h f t = Inr hr" by blast
  with Cons.IH[OF r] show ?case by simp
qed

section \<open>The row builder: the rows a run and a context line give\<close>

lemma getModifiedRows_loop_pushed:
  assumes "getModifiedRows_loop a d f t h b n out = Inr rows"
    and "\<And>x y. P (Row_Modified x y h b)" "\<And>x. P (Row_Deleted x h)" "\<And>x. P (Row_Added x h)"
  shows "\<exists>pushed. rows = out @ pushed \<and> list_all P pushed"
  using assms
proof (induction a d f t h b n out rule: getModifiedRows_loop.induct)
  case (1 a d f t h b n out)
  note P = "1.prems"(2-4)
  note run = "1.prems"(1)
  consider (both) "n < length a" "n < length d"
    | (del) "\<not> n < length a" "n < length d"
    | (add) "n < length a" "\<not> n < length d"
    | (finished) "\<not> n < length a" "\<not> n < length d"
    by blast
  then show ?case
  proof cases
    case both
    with run obtain x y where
      xy: "getDataFromLine (d ! n) OldLineNumber f t = Inr x"
          "getDataFromLine (a ! n) NewLineNumber f t = Inr y"
      and r: "getModifiedRows_loop a d f t h b (Suc n) (out @ [Row_Modified x y h b]) = Inr rows"
      by (subst (asm) getModifiedRows_loop.simps) (auto split: sum.splits)
    from "1.IH"(1)[OF _ _ xy r P] both obtain pushed where
      "rows = (out @ [Row_Modified x y h b]) @ pushed" "list_all P pushed" by auto
    then have "rows = out @ (Row_Modified x y h b # pushed)"
      "list_all P (Row_Modified x y h b # pushed)" using P by simp_all
    then show ?thesis by blast
  next
    case del
    with run obtain x where
      x: "getDataFromLine (d ! n) OldLineNumber f t = Inr x"
      and r: "getModifiedRows_loop a d f t h b (Suc n) (out @ [Row_Deleted x h]) = Inr rows"
      by (subst (asm) getModifiedRows_loop.simps) (auto split: sum.splits)
    from "1.IH"(2)[OF _ _ _ x r P] del obtain pushed where
      "rows = (out @ [Row_Deleted x h]) @ pushed" "list_all P pushed" by auto
    then have "rows = out @ (Row_Deleted x h # pushed)"
      "list_all P (Row_Deleted x h # pushed)" using P by simp_all
    then show ?thesis by blast
  next
    case add
    with run obtain y where
      y: "getDataFromLine (a ! n) NewLineNumber f t = Inr y"
      and r: "getModifiedRows_loop a d f t h b (Suc n) (out @ [Row_Added y h]) = Inr rows"
      by (subst (asm) getModifiedRows_loop.simps) (auto split: sum.splits)
    from "1.IH"(3)[OF _ _ _ _ y r P] add obtain pushed where
      "rows = (out @ [Row_Added y h]) @ pushed" "list_all P pushed" by auto
    then have "rows = out @ (Row_Added y h # pushed)"
      "list_all P (Row_Added y h # pushed)" using P by simp_all
    then show ?thesis by blast
  next
    case finished
    with run have "rows = out"
      by (subst (asm) getModifiedRows_loop.simps) simp
    then show ?thesis by simp
  qed
qed

lemma getModifiedRows_rows:
  assumes "getModifiedRows ms f t = Inr rows"
  shows "list_all (\<lambda>r. \<not> isContextRow r
           \<and> displayDiffTokens r \<in> {None,
                Some (length (filter (\<lambda>(line, _). type line = Add) ms)
                        = length (filter (\<lambda>(line, _). type line = Delete) ms))}) rows"
proof (cases "ms = []")
  case True
  with assms show ?thesis by (simp add: getModifiedRows_def)
next
  case False
  from assms[unfolded getModifiedRows_nonempty[OF False]]
  have "\<exists>pushed. rows = [] @ pushed \<and> list_all (\<lambda>r. \<not> isContextRow r
           \<and> displayDiffTokens r \<in> {None,
                Some (length (filter (\<lambda>(line, _). type line = Add) ms)
                        = length (filter (\<lambda>(line, _). type line = Delete) ms))}) pushed"
    by (rule getModifiedRows_loop_pushed) simp_all
  then show ?thesis by simp
qed

lemma flushModifiedLines_cases:
  assumes "flushModifiedLines rows ms f t = Inr rows1"
  obtains (empty) "ms = []" "rows1 = rows"
    | (run) runRows where "ms \<noteq> []" "getModifiedRows ms f t = Inr runRows"
        "rows1 = rows @ runRows"
  using assms by (auto simp: flushModifiedLines_def split: if_splits sum.splits)

lemma flushModifiedLines_context:
  assumes "flushModifiedLines rows ms f t = Inr rows1"
  shows "filter isContextRow rows1 = filter isContextRow rows"
  using assms
proof (cases rule: flushModifiedLines_cases)
  case empty
  then show ?thesis by simp
next
  case (run runRows)
  from getModifiedRows_rows[OF run(2)] have "filter isContextRow runRows = []"
    by (simp add: list_all_iff)
  with run show ?thesis by simp
qed

lemma getDiffRowsFromHunk_loop_context:
  assumes "getDiffRowsFromHunk_loop start f t num ls rows ms = Inr (rows', ms')"
  shows "map Some (filter isContextRow rows') =
           map Some (filter isContextRow rows)
             @ map contextRowOf (filter (\<lambda>l. type l = Context) ls)
         \<and> list_all (\<lambda>l. type l \<noteq> Unrecognized) ls"
  using assms
proof (induction ls arbitrary: num rows ms)
  case Nil
  then show ?case by simp
next
  case (Cons l ls)
  show ?case
  proof (cases "isChangeLine l")
    case True
    from Cons.prems[unfolded getDiffRowsFromHunk_loop_change[OF True]] Cons.IH True
    show ?thesis by (fastforce simp: isChangeLine_def)
  next
    case False
    from getDiffRowsFromHunk_loop_other[OF False Cons.prems] obtain rows1 row where
      fl: "flushModifiedLines rows ms f t = Inr rows1"
      and rest: "getDiffRowsFromHunk_loop start f t (num + 1) ls (rows1 @ [row]) [] = Inr (rows', ms')"
      and rw: "type l = Hunk \<and> row = Row_Hunk (content l)
               \<or> type l = Context
                 \<and> (\<exists>b a. oldLineNumber l = Some b \<and> newLineNumber l = Some a
                     \<and> row = Row_Context (content l) b a)"
      by blast
    from rw Cons.IH[OF rest] flushModifiedLines_context[OF fl] show ?thesis
      by (auto simp: contextRowOf_def)
  qed
qed

lemma getDiffRowsFromHunk_context:
  assumes "getDiffRowsFromHunk hunk f t = Inr rows"
  shows "map Some (filter isContextRow rows) =
           map contextRowOf (filter (\<lambda>l. type l = Context) (lines hunk))
         \<and> list_all (\<lambda>l. type l \<noteq> Unrecognized) (lines hunk)"
proof -
  from assms obtain rows1 ms where
    lp: "getDiffRowsFromHunk_loop (unifiedDiffStart hunk) f t 0 (lines hunk) [] [] = Inr (rows1, ms)"
    and fl: "flushModifiedLines rows1 ms f t = Inr rows"
    by (auto simp: getDiffRowsFromHunk_def split: sum.splits)
  from getDiffRowsFromHunk_loop_context[OF lp] flushModifiedLines_context[OF fl]
  show ?thesis by simp
qed

lemma getDiffRowsFromHunk_loop_append:
  "getDiffRowsFromHunk_loop start f t num (xs @ ys) rows ms =
     (case getDiffRowsFromHunk_loop start f t num xs rows ms of
        Inl e \<Rightarrow> Inl e
      | Inr (rows1, ms1) \<Rightarrow>
          getDiffRowsFromHunk_loop start f t (num + int (length xs)) ys rows1 ms1)"
proof (induction xs arbitrary: num rows ms)
  case Nil
  then show ?case by simp
next
  case (Cons x xs)
  have num: "num + 1 + int (length xs) = num + int (length (x # xs))" by simp
  show ?case
  proof (cases "isChangeLine x")
    case True
    show ?thesis
      unfolding append_Cons getDiffRowsFromHunk_loop_change[OF True] Cons.IH num
      by (rule refl)
  next
    case False
    then show ?thesis
      by (auto simp: isChangeLine_def Cons.IH add.assoc split: sum.splits)
  qed
qed

lemma getDiffRowsFromHunk_loop_run:
  "list_all isChangeLine run \<Longrightarrow>
     getDiffRowsFromHunk_loop start f t num run rows ms =
       Inr (rows, ms @ numberedFrom (start + num) run)"
proof (induction run arbitrary: num ms)
  case Nil
  then show ?case by simp
next
  case (Cons l run)
  then have c: "isChangeLine l" and r: "list_all isChangeLine run" by simp_all
  have "start + (num + 1) = start + num + 1" by simp
  with Cons.IH[OF r, of "num + 1" "ms @ [(l, start + num)]"] show ?case
    by (simp only: getDiffRowsFromHunk_loop_change[OF c]) simp
qed

lemma getDiffRowsFromHunk_loop_extends:
  "getDiffRowsFromHunk_loop start f t num ls rows ms = Inr (rows', ms') \<Longrightarrow>
     \<exists>ext. rows' = rows @ ext"
proof (induction ls arbitrary: num rows ms)
  case Nil
  then show ?case by simp
next
  case (Cons l ls)
  show ?case
  proof (cases "isChangeLine l")
    case True
    from Cons.prems[unfolded getDiffRowsFromHunk_loop_change[OF True]] Cons.IH
    show ?thesis by blast
  next
    case False
    from getDiffRowsFromHunk_loop_other[OF False Cons.prems] obtain rows1 row where
      fl: "flushModifiedLines rows ms f t = Inr rows1"
      and rest: "getDiffRowsFromHunk_loop start f t (num + 1) ls (rows1 @ [row]) [] = Inr (rows', ms')"
      by blast
    from fl obtain ext1 where "rows1 = rows @ ext1"
      by (cases rule: flushModifiedLines_cases) auto
    with Cons.IH[OF rest] show ?thesis by auto
  qed
qed

lemma getDiffRowsFromHunk_loop_closed:
  assumes "getDiffRowsFromHunk_loop start f t num pre rows ms = Inr (rows', ms')"
    and "pre = [] \<or> \<not> isChangeLine (last pre)"
    and "ms = []"
  shows "ms' = []"
proof (cases "pre = []")
  case True
  with assms show ?thesis by simp
next
  case False
  with assms(2) have l: "\<not> isChangeLine (last pre)" by simp
  from False have "pre = butlast pre @ [last pre]" by simp
  with assms(1) have
    "getDiffRowsFromHunk_loop start f t num (butlast pre @ [last pre]) rows ms = Inr (rows', ms')"
    by simp
  then obtain r1 m1 where
    "getDiffRowsFromHunk_loop start f t (num + int (length (butlast pre))) [last pre] r1 m1
       = Inr (rows', ms')"
    unfolding getDiffRowsFromHunk_loop_append by (auto split: sum.splits)
  from getDiffRowsFromHunk_loop_other[OF l this] show ?thesis by auto
qed

lemma numberedFrom_counts:
  "length (filter (\<lambda>(line, _). type line = ty) (numberedFrom n run))
     = length (filter (\<lambda>line. type line = ty) run)"
  by (induction run arbitrary: n) simp_all

lemma numberedFrom_empty: "numberedFrom n run = [] \<longleftrightarrow> run = []"
  by (cases run) simp_all

section \<open>Properties of the row builder\<close>

text \<open>
  C1: the builder either fails, and then some line of the diff is malformed, or returns
  rows that conserve the change lines: the number of added rows plus the number of deleted
  rows plus twice the number of modified rows is the number of input lines of type
  \<open>Add\<close> or \<open>Delete\<close>.
\<close>

theorem getDiffRows_conserves_change_lines:
  "case getDiffRows d f t of
     Inr rows \<Rightarrow>
       length (filter isAddedRow rows) + length (filter isDeletedRow rows)
         + 2 * length (filter isModifiedRow rows)
       = length (filter isChangeLine (diffLines d))
   | Inl e \<Rightarrow> \<not> list_all wellFormedLine (diffLines d)"
proof (cases "getDiffRows d f t")
  case (Inr rows)
  then have "shownTotal rows = length (filter isChangeLine (diffLines d))"
    by (auto simp: getDiffRows_def diffLines_def dest: getDiffRows_loop_shown)
  with Inr show ?thesis by (simp add: shownTotal_counts)
next
  case (Inl e)
  with getDiffRows_loop_total[of "hunks d" f t "[]"] show ?thesis
    by (auto simp: getDiffRows_def diffLines_def)
qed

theorem getDiffRows_conserves_change_lines_witness:
  "\<exists>rows. getDiffRows exampleDiff exampleFile None = Inr rows
      \<and> length (filter isAddedRow rows) + length (filter isDeletedRow rows)
           + 2 * length (filter isModifiedRow rows) = 4
      \<and> length (filter isChangeLine (diffLines exampleDiff)) = 4"
proof -
  have wf: "list_all wellFormedLine (diffLines exampleDiff)"
    by (simp add: exampleDiff_def example_defs diffLines_def wellFormedLine_def)
  have n: "length (filter isChangeLine (diffLines exampleDiff)) = 4"
    by (simp add: exampleDiff_def example_defs diffLines_def isChangeLine_def)
  from getDiffRows_conserves_change_lines [of exampleDiff exampleFile None] wf n
  show ?thesis
    by (cases "getDiffRows exampleDiff exampleFile None") simp_all
qed

text \<open>
  C2: let a hunk's lines split into \<open>pre @ run @ post\<close> where \<open>run\<close> is a maximal
  contiguous run of change lines. Then the rows of the hunk are the rows of \<open>pre\<close>, the
  rows \<^verbatim>\<open>getModifiedRows\<close> gives for the run, and further rows; and every modified row
  of the run carries the same flag, which is true exactly when the run has as many added as
  deleted lines.
\<close>

theorem run_displayDiffTokens:
  assumes split: "lines hunk = pre @ run @ post"
    and run: "run \<noteq> []" "list_all isChangeLine run"
    and pre: "pre = [] \<or> \<not> isChangeLine (last pre)"
    and post: "post = [] \<or> \<not> isChangeLine (hd post)"
    and rows: "getDiffRowsFromHunk hunk f t = Inr rows"
  shows "\<exists>before runRows after.
           rows = before @ runRows @ after
         \<and> getDiffRowsFromHunk (hunk\<lparr>lines := pre\<rparr>) f t = Inr before
         \<and> getModifiedRows
              (numberedFrom (unifiedDiffStart hunk + int (length pre)) run) f t = Inr runRows
         \<and> (\<forall>r \<in> set runRows. isModifiedRow r \<longrightarrow>
               displayDiffTokens r =
                 Some (length (filter (\<lambda>l. type l = Add) run)
                         = length (filter (\<lambda>l. type l = Delete) run)))"
proof -
  let ?s = "unifiedDiffStart hunk"
  let ?ms = "numberedFrom (?s + int (length pre)) run"
  from rows obtain r3 m3 where
    lp: "getDiffRowsFromHunk_loop ?s f t 0 (pre @ run @ post) [] [] = Inr (r3, m3)"
    and fl: "flushModifiedLines r3 m3 f t = Inr rows"
    by (auto simp: getDiffRowsFromHunk_def split split: sum.splits)
  from lp obtain r1 m1 where
    p1: "getDiffRowsFromHunk_loop ?s f t 0 pre [] [] = Inr (r1, m1)"
    and p2: "getDiffRowsFromHunk_loop ?s f t (int (length pre)) (run @ post) r1 m1 = Inr (r3, m3)"
    unfolding getDiffRowsFromHunk_loop_append[of _ _ _ _ pre] by (auto split: sum.splits)
  from getDiffRowsFromHunk_loop_closed[OF p1 pre] have m1: "m1 = []" by simp
  from p1 m1 have before: "getDiffRowsFromHunk (hunk\<lparr>lines := pre\<rparr>) f t = Inr r1"
    by (simp add: getDiffRowsFromHunk_def flushModifiedLines_def)
  from p2 m1 have p3:
    "getDiffRowsFromHunk_loop ?s f t (int (length pre) + int (length run)) post r1 ?ms = Inr (r3, m3)"
    unfolding getDiffRowsFromHunk_loop_append[of _ _ _ _ run]
      getDiffRowsFromHunk_loop_run[OF run(2)] by simp
  from run(1) have ne: "?ms \<noteq> []" by (simp add: numberedFrom_empty)
  have "\<exists>runRows after. rows = r1 @ runRows @ after \<and> getModifiedRows ?ms f t = Inr runRows"
  proof (cases post)
    case Nil
    with p3 have "r3 = r1" "m3 = ?ms" by simp_all
    with fl ne show ?thesis by (cases rule: flushModifiedLines_cases) auto
  next
    case (Cons x post')
    with post have x: "\<not> isChangeLine x" by simp
    from getDiffRowsFromHunk_loop_other[OF x p3[unfolded Cons]] obtain rows1 row where
      fl1: "flushModifiedLines r1 ?ms f t = Inr rows1"
      and rest: "getDiffRowsFromHunk_loop ?s f t (int (length pre) + int (length run) + 1) post'
                   (rows1 @ [row]) [] = Inr (r3, m3)"
      by blast
    from fl1 ne obtain runRows where
      rr: "getModifiedRows ?ms f t = Inr runRows" "rows1 = r1 @ runRows"
      by (cases rule: flushModifiedLines_cases) auto
    from getDiffRowsFromHunk_loop_extends[OF rest] obtain ext where
      "r3 = (rows1 @ [row]) @ ext" by blast
    moreover from fl obtain ext2 where "rows = r3 @ ext2"
      by (cases rule: flushModifiedLines_cases) auto
    ultimately have "rows = r1 @ runRows @ ([row] @ ext @ ext2)" using rr(2) by simp
    with rr(1) show ?thesis by blast
  qed
  then obtain runRows after where
    r: "rows = r1 @ runRows @ after" and g: "getModifiedRows ?ms f t = Inr runRows" by blast
  from getModifiedRows_rows[OF g] have
    "\<forall>r \<in> set runRows. isModifiedRow r \<longrightarrow>
       displayDiffTokens r =
         Some (length (filter (\<lambda>l. type l = Add) run)
                 = length (filter (\<lambda>l. type l = Delete) run))"
    unfolding numberedFrom_counts list_all_iff
    by (auto elim!: isModifiedRow.elims)
  with r g before show ?thesis by blast
qed

theorem run_displayDiffTokens_witness:
  "(\<exists>rows before runRows after.
      getDiffRowsFromHunk pairedHunk exampleFile None = Inr rows
    \<and> rows = before @ runRows @ after
    \<and> getDiffRowsFromHunk (pairedHunk\<lparr>lines := [headerLine, contextLine ''a'' 1 1]\<rparr>)
        exampleFile None = Inr before
    \<and> getModifiedRows (numberedFrom 2 [deletedLine ''b'' 2, addedLine ''B'' 2])
        exampleFile None = Inr runRows
    \<and> (\<forall>r \<in> set runRows. isModifiedRow r \<longrightarrow> displayDiffTokens r = Some True))
   \<and> (\<exists>rows before runRows after.
      getDiffRowsFromHunk exampleHunk exampleFile None = Inr rows
    \<and> rows = before @ runRows @ after
    \<and> getDiffRowsFromHunk (exampleHunk\<lparr>lines := [headerLine, contextLine ''a'' 1 1]\<rparr>)
        exampleFile None = Inr before
    \<and> getModifiedRows
        (numberedFrom 2 [deletedLine ''b'' 2, addedLine ''B'' 2, addedLine ''c'' 3])
        exampleFile None = Inr runRows
    \<and> (\<forall>r \<in> set runRows. isModifiedRow r \<longrightarrow> displayDiffTokens r = Some False))"
proof (rule conjI)
  let ?pre = "[headerLine, contextLine ''a'' 1 1]"
  let ?run = "[deletedLine ''b'' 2, addedLine ''B'' 2]"
  let ?post = "[contextLine ''d'' 3 3]"
  have "list_all wellFormedLine (lines pairedHunk)"
    by (simp add: pairedHunk_def example_defs wellFormedLine_def)
  then obtain rows where rows: "getDiffRowsFromHunk pairedHunk exampleFile None = Inr rows"
    using getDiffRowsFromHunk_total by blast
  have split: "lines pairedHunk = ?pre @ ?run @ ?post" by (simp add: pairedHunk_def)
  have run: "?run \<noteq> []" "list_all isChangeLine ?run"
    by (simp_all add: example_defs isChangeLine_def)
  have pre: "?pre = [] \<or> \<not> isChangeLine (last ?pre)"
    by (simp add: example_defs isChangeLine_def)
  have post: "?post = [] \<or> \<not> isChangeLine (hd ?post)"
    by (simp add: example_defs isChangeLine_def)
  have u: "unifiedDiffStart pairedHunk + int (length ?pre) = 2" by (simp add: pairedHunk_def)
  have c: "(length (filter (\<lambda>l. type l = Add) ?run)
              = length (filter (\<lambda>l. type l = Delete) ?run)) = True"
    by (simp add: example_defs)
  from run_displayDiffTokens [OF split run pre post rows] rows
  show "\<exists>rows before runRows after.
      getDiffRowsFromHunk pairedHunk exampleFile None = Inr rows
    \<and> rows = before @ runRows @ after
    \<and> getDiffRowsFromHunk (pairedHunk\<lparr>lines := ?pre\<rparr>) exampleFile None = Inr before
    \<and> getModifiedRows (numberedFrom 2 ?run) exampleFile None = Inr runRows
    \<and> (\<forall>r \<in> set runRows. isModifiedRow r \<longrightarrow> displayDiffTokens r = Some True)"
    unfolding u c by blast
next
  let ?pre = "[headerLine, contextLine ''a'' 1 1]"
  let ?run = "[deletedLine ''b'' 2, addedLine ''B'' 2, addedLine ''c'' 3]"
  let ?post = "[contextLine ''d'' 3 4]"
  have "list_all wellFormedLine (lines exampleHunk)"
    by (simp add: example_defs wellFormedLine_def)
  then obtain rows where rows: "getDiffRowsFromHunk exampleHunk exampleFile None = Inr rows"
    using getDiffRowsFromHunk_total by blast
  have split: "lines exampleHunk = ?pre @ ?run @ ?post" by (simp add: exampleHunk_def)
  have run: "?run \<noteq> []" "list_all isChangeLine ?run"
    by (simp_all add: example_defs isChangeLine_def)
  have pre: "?pre = [] \<or> \<not> isChangeLine (last ?pre)"
    by (simp add: example_defs isChangeLine_def)
  have post: "?post = [] \<or> \<not> isChangeLine (hd ?post)"
    by (simp add: example_defs isChangeLine_def)
  have u: "unifiedDiffStart exampleHunk + int (length ?pre) = 2" by (simp add: exampleHunk_def)
  have c: "(length (filter (\<lambda>l. type l = Add) ?run)
              = length (filter (\<lambda>l. type l = Delete) ?run)) = False"
    by (simp add: example_defs)
  from run_displayDiffTokens [OF split run pre post rows] rows
  show "\<exists>rows before runRows after.
      getDiffRowsFromHunk exampleHunk exampleFile None = Inr rows
    \<and> rows = before @ runRows @ after
    \<and> getDiffRowsFromHunk (exampleHunk\<lparr>lines := ?pre\<rparr>) exampleFile None = Inr before
    \<and> getModifiedRows (numberedFrom 2 ?run) exampleFile None = Inr runRows
    \<and> (\<forall>r \<in> set runRows. isModifiedRow r \<longrightarrow> displayDiffTokens r = Some False)"
    unfolding u c by blast
qed

text \<open>
  C7: when the builder returns rows for a hunk, its context rows are, in order, the context
  lines of the hunk with their content, old number as before number and new number as
  after number; a context line that lacks a number, or a line of unrecognized type, makes
  the builder fail with a fatal error; a hunk of well-formed lines never fails.
\<close>

theorem getDiffRowsFromHunk_context_rows:
  "(\<forall>rows. getDiffRowsFromHunk hunk f t = Inr rows \<longrightarrow>
      map Some (filter isContextRow rows) =
        map contextRowOf (filter (\<lambda>l. type l = Context) (lines hunk)))
   \<and> ((\<exists>l \<in> set (lines hunk).
          type l = Context \<and> (oldLineNumber l = None \<or> newLineNumber l = None)
          \<or> type l = Unrecognized) \<longrightarrow>
        (\<exists>e. getDiffRowsFromHunk hunk f t = Inl e))
   \<and> (list_all wellFormedLine (lines hunk) \<longrightarrow>
        (\<exists>rows. getDiffRowsFromHunk hunk f t = Inr rows))"
proof (intro conjI allI impI)
  fix rows assume "getDiffRowsFromHunk hunk f t = Inr rows"
  then show "map Some (filter isContextRow rows) =
        map contextRowOf (filter (\<lambda>l. type l = Context) (lines hunk))"
    by (simp add: getDiffRowsFromHunk_context)
next
  assume bad: "\<exists>l \<in> set (lines hunk).
          type l = Context \<and> (oldLineNumber l = None \<or> newLineNumber l = None)
          \<or> type l = Unrecognized"
  show "\<exists>e. getDiffRowsFromHunk hunk f t = Inl e"
  proof (cases "getDiffRowsFromHunk hunk f t")
    case (Inl e)
    then show ?thesis by blast
  next
    case (Inr rows)
    from getDiffRowsFromHunk_context[OF Inr] have
      m: "map Some (filter isContextRow rows) =
           map contextRowOf (filter (\<lambda>l. type l = Context) (lines hunk))"
      and u: "list_all (\<lambda>l. type l \<noteq> Unrecognized) (lines hunk)" by simp_all
    from bad u obtain l where l: "l \<in> set (lines hunk)" "type l = Context"
      "oldLineNumber l = None \<or> newLineNumber l = None"
      by (auto simp: list_all_iff)
    then have "contextRowOf l = None"
      by (auto simp: contextRowOf_def split: option.splits)
    moreover from l have "contextRowOf l \<in> set (map contextRowOf (filter (\<lambda>l. type l = Context) (lines hunk)))"
      by simp
    ultimately have "None \<in> set (map Some (filter isContextRow rows))"
      using m by simp
    then show ?thesis by auto
  qed
next
  assume "list_all wellFormedLine (lines hunk)"
  then show "\<exists>rows. getDiffRowsFromHunk hunk f t = Inr rows"
    by (rule getDiffRowsFromHunk_total)
qed

theorem getDiffRowsFromHunk_context_rows_witness:
  "(\<exists>rows. getDiffRowsFromHunk exampleHunk exampleFile None = Inr rows
      \<and> filter isContextRow rows = [Row_Context ''a'' 1 1, Row_Context ''d'' 3 4])
   \<and> (\<exists>e. getDiffRowsFromHunk brokenHunk exampleFile None = Inl e)"
proof -
  have wf: "list_all wellFormedLine (lines exampleHunk)"
    by (simp add: example_defs wellFormedLine_def)
  have ctx: "map contextRowOf (filter (\<lambda>l. type l = Context) (lines exampleHunk))
               = map Some [Row_Context ''a'' 1 1, Row_Context ''d'' 3 4]"
    by (simp add: example_defs contextRowOf_def)
  have bad: "\<exists>l \<in> set (lines brokenHunk).
          type l = Context \<and> (oldLineNumber l = None \<or> newLineNumber l = None)
          \<or> type l = Unrecognized"
    by (simp add: brokenHunk_def)
  from getDiffRowsFromHunk_context_rows [of exampleHunk exampleFile None] wf ctx
  have "\<exists>rows. getDiffRowsFromHunk exampleHunk exampleFile None = Inr rows
      \<and> filter isContextRow rows = [Row_Context ''a'' 1 1, Row_Context ''d'' 3 4]"
    by (metis map_injective inj_Some)
  moreover from getDiffRowsFromHunk_context_rows [of brokenHunk exampleFile None] bad
  have "\<exists>e. getDiffRowsFromHunk brokenHunk exampleFile None = Inl e" by blast
  ultimately show ?thesis by blast
qed

section \<open>Properties of the displayed selected state\<close>

text \<open>
  C3: for a file that owns a persisted selection, a line's displayed selected state is the
  persisted state joined with the transient range when the gesture selects, the persisted
  state with the transient range cut out when the gesture deselects, and the persisted
  state itself when no gesture is active.
\<close>

theorem isInSelection_overlay:
  "isInSelection n (WorkingDirectoryFileChange fid S) (Some t) =
     (if isSelected t then DiffSelection_isSelected S n \<or> isInTemporarySelection t n
      else DiffSelection_isSelected S n \<and> \<not> isInTemporarySelection t n)
   \<and> isInSelection n (WorkingDirectoryFileChange fid S) None = DiffSelection_isSelected S n"
  by (simp add: isInSelection_def)

theorem isInSelection_overlay_witness:
  "isInSelection 4 (WorkingDirectoryFileChange ''a.txt'' (DiffSelection {1, 9}))
       (Some \<lparr>from' = 7, to = 3, isSelected = True\<rparr>)
   \<and> \<not> isInSelection 9 (WorkingDirectoryFileChange ''a.txt'' (DiffSelection {1, 9}))
       (Some \<lparr>from' = 9, to = 12, isSelected = False\<rparr>)
   \<and> isInSelection 1 (WorkingDirectoryFileChange ''a.txt'' (DiffSelection {1, 9}))
       (Some \<lparr>from' = 9, to = 12, isSelected = False\<rparr>)
   \<and> isInSelection 9 (WorkingDirectoryFileChange ''a.txt'' (DiffSelection {1, 9})) None"
  using isInSelection_overlay [of 4 "''a.txt''" "DiffSelection {1, 9}"
          "\<lparr>from' = 7, to = 3, isSelected = True\<rparr>"]
        isInSelection_overlay [of 9 "''a.txt''" "DiffSelection {1, 9}"
          "\<lparr>from' = 9, to = 12, isSelected = False\<rparr>"]
        isInSelection_overlay [of 1 "''a.txt''" "DiffSelection {1, 9}"
          "\<lparr>from' = 9, to = 12, isSelected = False\<rparr>"]
  by (simp add: isInTemporarySelection_def)

text \<open>
  C10: when the displayed file is not selectable, no line is displayed as selected,
  whatever the transient selection holds; such a file has no persisted selection.
\<close>

theorem isInSelection_not_selectable:
  "\<not> canSelect f \<Longrightarrow> isInSelection n f t = False"
  by (cases f) (simp_all add: isInSelection_def)

theorem isInSelection_not_selectable_witness:
  "\<not> canSelect (CommittedFileChange ''a.txt'')
   \<and> isInSelection 4 (CommittedFileChange ''a.txt'')
        (Some \<lparr>from' = 3, to = 7, isSelected = True\<rparr>) = False"
  using isInSelection_not_selectable [of "CommittedFileChange ''a.txt''" 4
          "Some \<lparr>from' = 3, to = 7, isSelected = True\<rparr>"]
  by simp

section \<open>Properties of the drag gesture\<close>

lemma withRangeSelection_inclusive:
  "DiffSelection_withRangeSelection (DiffSelection S) (min a c) (max a c - min a c + 1) intent
     = DiffSelection (if intent then S \<union> {min a c .. max a c} else S - {min a c .. max a c})"
proof -
  have "{min a c ..< min a c + (max a c - min a c + 1)} = {min a c .. max a c}"
    by auto
  then show ?thesis by simp
qed

text \<open>
  C4: for a file that owns the persisted selection \<open>S\<close>, with a registered
  \<^verbatim>\<open>onIncludeChanged\<close>, ending a drag with anchor \<open>a\<close> and current line \<open>c\<close> clears
  the transient selection and hands the collaborator, once, the selection \<open>S\<close> with the
  inclusive range from \<open>min a c\<close> to \<open>max a c\<close> added (intent select) or removed
  (intent deselect); a drag with anchor \<open>c\<close> and current line \<open>a\<close> ends the same way.
\<close>

theorem onEndSelection_range_update:
  assumes "file' props = WorkingDirectoryFileChange fid (DiffSelection S)"
    and "onIncludeChanged props = Some handler"
    and "selection state = Some \<lparr>from' = a, to = c, isSelected = intent\<rparr>"
  shows "onEndSelection props state world =
           (state\<lparr>selection := None\<rparr>,
            handler (DiffSelection (if intent then S \<union> {min a c .. max a c}
                                    else S - {min a c .. max a c})) world)
         \<and> onEndSelection props
             (state\<lparr>selection := Some \<lparr>from' = c, to = a, isSelected = intent\<rparr>\<rparr>) world
           = onEndSelection props state world"
proof -
  have "onEndSelection props state world =
           (state\<lparr>selection := None\<rparr>,
            handler (DiffSelection_withRangeSelection (DiffSelection S)
                       (min a c) (max a c - min a c + 1) intent) world)"
    using assms by (simp add: onEndSelection_def Let_def)
  moreover have "onEndSelection props
             (state\<lparr>selection := Some \<lparr>from' = c, to = a, isSelected = intent\<rparr>\<rparr>) world =
           (state\<lparr>selection := None\<rparr>,
            handler (DiffSelection_withRangeSelection (DiffSelection S)
                       (min a c) (max a c - min a c + 1) intent) world)"
    using assms(1,2) by (simp add: onEndSelection_def Let_def min.commute max.commute)
  ultimately show ?thesis
    by (simp only: withRangeSelection_inclusive)
qed

theorem onEndSelection_range_update_witness:
  "onEndSelection editableProps dragState [] =
     (idleState, [DiffSelection {2, 3, 4, 5, 6, 7}])
   \<and> onEndSelection editableProps
        (dragState\<lparr>selection := Some \<lparr>from' = 3, to = 7, isSelected = True\<rparr>\<rparr>) []
      = onEndSelection editableProps dragState []"
proof -
  have f: "file' editableProps = WorkingDirectoryFileChange ''a.txt'' (DiffSelection {2})"
    by (simp add: editableProps_def exampleFile_def)
  have h: "onIncludeChanged editableProps = Some recordSelection"
    by (simp add: editableProps_def)
  have s: "selection dragState = Some \<lparr>from' = 7, to = 3, isSelected = True\<rparr>"
    by (simp add: dragState_def)
  have r: "insert 2 {3 .. 7} = {2, 3, 4, 5, 6, 7::int}" by auto
  have d: "dragState\<lparr>selection := None\<rparr> = idleState"
    by (simp add: dragState_def idleState_def)
  from onEndSelection_range_update [OF f h s, of "[]"] show ?thesis
    by (simp add: r d recordSelection_def)
qed

text \<open>
  C5: with no \<^verbatim>\<open>onIncludeChanged\<close> registered, \<^verbatim>\<open>onEndSelection\<close> returns at its third
  guard, before the state update that clears the transient selection: the persisted
  selection is not touched, and the transient selection of the drag stays in the state.
\<close>

theorem onEndSelection_read_only_keeps_selection:
  "onEndSelection readOnlyProps dragState [] = (dragState, [])
   \<and> selection dragState = Some \<lparr>from' = 7, to = 3, isSelected = True\<rparr>"
  by (simp add: onEndSelection_def readOnlyProps_def exampleFile_def dragState_def)

section \<open>Properties of the hover indicator\<close>

text \<open>
  C8, as stated, fails where it says that starting a drag clears the hover indicator:
  \<^verbatim>\<open>onStartSelection\<close> sets the transient selection only, and a hovered hunk stays
  hovered.
\<close>

theorem onStartSelection_keeps_hover:
  "selection hoveringState = None
   \<and> hoveredHunk hoveringState = Some 3
   \<and> hoveredHunk (onStartSelection 5 True hoveringState) = Some 3
   \<and> selection (onStartSelection 5 True hoveringState)
       = Some \<lparr>from' = 5, to = 5, isSelected = True\<rparr>"
  by (simp add: hoveringState_def idleState_def onStartSelection_def)

lemma dispatchRowEvent_dragging:
  assumes "selection state \<noteq> None"
  shows "selection (dispatchRowEvent state event) \<noteq> None
         \<and> hoveredHunk (dispatchRowEvent state event) \<in> {hoveredHunk state, None}"
  using assms
  by (cases event)
     (auto simp: onStartSelection_def onUpdateSelection_def onMouseEnterHunk_def
                 onMouseLeaveHunk_def)

lemma dispatchRowEvents_dragging:
  assumes "selection state \<noteq> None"
  shows "selection (foldl dispatchRowEvent state events) \<noteq> None
         \<and> hoveredHunk (foldl dispatchRowEvent state events) \<in> {hoveredHunk state, None}"
  using assms
proof (induction events arbitrary: state rule: rev_induct)
  case Nil
  then show ?case by simp
next
  case (snoc event events)
  from snoc.IH[OF snoc.prems] dispatchRowEvent_dragging[of "foldl dispatchRowEvent state events" event]
  show ?case by auto
qed

text \<open>
  C8, amended: hovering a hunk while no drag is active sets the hover indicator to that
  hunk; starting a drag leaves the hover indicator as it is; while a drag is active a hover
  over a hunk changes nothing, and after any sequence of row events of the drag the hover
  indicator is the one from the start of the drag or none: it never moves to a new hunk.
\<close>

theorem hover_suppressed_during_drag:
  "(selection state = None \<longrightarrow> hoveredHunk (onMouseEnterHunk h state) = Some h)
   \<and> hoveredHunk (onStartSelection n select state) = hoveredHunk state
   \<and> selection (onStartSelection n select state) \<noteq> None
   \<and> (selection state \<noteq> None \<longrightarrow>
        onMouseEnterHunk h state = state
      \<and> selection (foldl dispatchRowEvent state events) \<noteq> None
      \<and> hoveredHunk (foldl dispatchRowEvent state events) \<in> {hoveredHunk state, None})"
  using dispatchRowEvents_dragging[of state events]
  by (simp add: onMouseEnterHunk_def onStartSelection_def)

theorem hover_suppressed_during_drag_witness:
  "hoveredHunk (onMouseEnterHunk 3 idleState) = Some 3
   \<and> hoveredHunk (onStartSelection 5 True hoveringState) = Some 3
   \<and> onMouseEnterHunk 9 dragState = dragState
   \<and> hoveredHunk (foldl dispatchRowEvent (onStartSelection 5 True hoveringState)
        [UpdateSelection 6, MouseEnterHunk 9, UpdateSelection 7]) = Some 3
   \<and> hoveredHunk (foldl dispatchRowEvent (onStartSelection 5 True hoveringState)
        [UpdateSelection 6, MouseLeaveHunk, MouseEnterHunk 9]) = None"
proof -
  have i: "selection idleState = None" by (simp add: idleState_def)
  have d: "selection dragState \<noteq> None" by (simp add: dragState_def)
  have h: "hoveredHunk hoveringState = Some 3" by (simp add: hoveringState_def)
  have e1: "hoveredHunk (foldl dispatchRowEvent (onStartSelection 5 True hoveringState)
        [UpdateSelection 6, MouseEnterHunk 9, UpdateSelection 7]) \<noteq> None"
    by (simp add: hoveringState_def idleState_def onStartSelection_def onUpdateSelection_def
          onMouseEnterHunk_def)
  have e2: "hoveredHunk (foldl dispatchRowEvent (onStartSelection 5 True hoveringState)
        [UpdateSelection 6, MouseLeaveHunk, MouseEnterHunk 9]) \<noteq> Some 3"
    by (simp add: hoveringState_def idleState_def onStartSelection_def onUpdateSelection_def
          onMouseEnterHunk_def onMouseLeaveHunk_def)
  from hover_suppressed_during_drag [of idleState 3 5 True "[]"]
       hover_suppressed_during_drag [of hoveringState 3 5 True "[]"]
       hover_suppressed_during_drag [of dragState 9 5 True "[]"]
       hover_suppressed_during_drag [of "onStartSelection 5 True hoveringState" 9 5 True
          "[UpdateSelection 6, MouseEnterHunk 9, UpdateSelection 7]"]
       hover_suppressed_during_drag [of "onStartSelection 5 True hoveringState" 9 5 True
          "[UpdateSelection 6, MouseLeaveHunk, MouseEnterHunk 9]"]
       i d h e1 e2
  show ?thesis by auto
qed

section \<open>Properties of background syntax highlighting\<close>

lemma highlightParametersEqual_same:
  "highlightParametersEqual p q = sameHighlightInputs p q"
  by (auto simp: highlightParametersEqual_def sameHighlightInputs_def)

text \<open>
  C6: a call of \<^verbatim>\<open>initDiffSyntaxMode\<close> issued under \<open>props0\<close> sets the tokens of the
  state only when file id and diff text of the current props equal those of the snapshot
  at both resumptions; when they differ at the first or at the second resumption the state
  is left as it is, and when they differ at the first one the call returns without asking
  for the highlighting.
\<close>

theorem initDiffSyntaxMode_stale_discard:
  "runInitDiffSyntaxMode props0 props1 state1 props2 state2 tokens =
     (if sameHighlightInputs props1 props0 \<and> sameHighlightInputs props2 props0
      then state2\<lparr>beforeTokens := Some (oldTokens tokens),
                   afterTokens := Some (newTokens tokens)\<rparr>
      else state2)
   \<and> resumeInitDiffSyntaxMode (initDiffSyntaxMode props0) props1 tokens state1 =
       (if sameHighlightInputs props1 props0 then AwaitingHighlightContents props0 else Returned,
        state1)"
  by (simp add: runInitDiffSyntaxMode_def initDiffSyntaxMode_def highlightParametersEqual_same)

theorem initDiffSyntaxMode_stale_discard_witness:
  "runInitDiffSyntaxMode editableProps editableProps idleState otherFileProps hoveringState
       exampleTokens = hoveringState
   \<and> runInitDiffSyntaxMode editableProps otherFileProps idleState editableProps hoveringState
       exampleTokens = hoveringState
   \<and> runInitDiffSyntaxMode editableProps readOnlyProps idleState readOnlyProps hoveringState
       exampleTokens
     = hoveringState\<lparr>beforeTokens := Some ''old tokens'', afterTokens := Some ''new tokens''\<rparr>"
  using initDiffSyntaxMode_stale_discard
          [of editableProps editableProps idleState otherFileProps hoveringState exampleTokens]
        initDiffSyntaxMode_stale_discard
          [of editableProps otherFileProps idleState editableProps hoveringState exampleTokens]
        initDiffSyntaxMode_stale_discard
          [of editableProps readOnlyProps idleState readOnlyProps hoveringState exampleTokens]
  by (simp add: sameHighlightInputs_def editableProps_def otherFileProps_def readOnlyProps_def
        exampleFile_def exampleTokens_def)

section \<open>Properties of the clone dialog\<close>

text \<open>
  C9: a completed existence check for a path that is no longer the current path leaves the
  dialog state as it is; for the current path it sets the error to the destination-exists
  error when the path exists, which disables the Clone button, and clears the error when
  the path does not exist; every later state whose error has that name has the button
  disabled.
\<close>

theorem checkPathValid_result:
  "(path state \<noteq> newPath \<longrightarrow> checkPathValid newPath exists state = state)
   \<and> (path state = newPath \<and> exists \<longrightarrow>
        checkPathValid newPath exists state =
          state\<lparr>error := Some \<lparr>name = DestinationExistsErrorName,
                                 message = ''The destination already exists.''\<rparr>\<rparr>
      \<and> disabled (checkPathValid newPath exists state))
   \<and> (path state = newPath \<and> \<not> exists \<longrightarrow>
        checkPathValid newPath exists state = state\<lparr>error := None\<rparr>)
   \<and> (\<forall>e. error later = Some e \<and> name e = DestinationExistsErrorName \<longrightarrow> disabled later)"
  by (auto simp: checkPathValid_def disabled_def)

theorem checkPathValid_result_witness:
  "checkPathValid ''/tmp/cool'' True typingState = typingState
   \<and> error (checkPathValid ''/tmp/cool-repo'' True typingState)
       = Some \<lparr>name = ''DestinationExistsError'', message = ''The destination already exists.''\<rparr>
   \<and> disabled (checkPathValid ''/tmp/cool-repo'' True typingState)
   \<and> \<not> disabled typingState
   \<and> checkPathValid ''/tmp/cool-repo'' False
        (checkPathValid ''/tmp/cool-repo'' True typingState) = typingState
   \<and> disabled ((checkPathValid ''/tmp/cool-repo'' True typingState)\<lparr>url := ''other/repo''\<rparr>)"
proof -
  let ?blocked = "checkPathValid ''/tmp/cool-repo'' True typingState"
  have p: "path typingState = ''/tmp/cool-repo''" "path typingState \<noteq> ''/tmp/cool''"
    by (simp_all add: typingState_def)
  have n: "\<not> disabled typingState" by (simp add: typingState_def disabled_def)
  from checkPathValid_result [of typingState "''/tmp/cool''" True typingState] p
  have a: "checkPathValid ''/tmp/cool'' True typingState = typingState" by simp
  from checkPathValid_result [of typingState "''/tmp/cool-repo''" True "?blocked\<lparr>url := ''other/repo''\<rparr>"] p
  have b: "?blocked = typingState\<lparr>error := Some \<lparr>name = DestinationExistsErrorName,
                                 message = ''The destination already exists.''\<rparr>\<rparr>"
    and c: "disabled ?blocked"
    and d: "\<forall>e. error (?blocked\<lparr>url := ''other/repo''\<rparr>) = Some e
              \<and> name e = DestinationExistsErrorName
            \<longrightarrow> disabled (?blocked\<lparr>url := ''other/repo''\<rparr>)"
    by blast+
  from b have e: "error ?blocked = Some \<lparr>name = ''DestinationExistsError'',
                       message = ''The destination already exists.''\<rparr>"
    by (simp add: DestinationExistsErrorName_def)
  from d b have f: "disabled (?blocked\<lparr>url := ''other/repo''\<rparr>)" by simp
  from b have "path ?blocked = ''/tmp/cool-repo''" by (simp add: typingState_def)
  with checkPathValid_result [of ?blocked "''/tmp/cool-repo''" False typingState]
  have "checkPathValid ''/tmp/cool-repo'' False ?blocked = ?blocked\<lparr>error := None\<rparr>"
    by simp
  with b have g: "checkPathValid ''/tmp/cool-repo'' False ?blocked = typingState"
    by (simp add: typingState_def)
  from a e c n g f show ?thesis by simp
qed

end
